theory Spec2Isabelle
  imports Complex_Main "HOL-Library.Sublist" "HOL-Library.Multiset"
begin

section \<open>Plugin records and the merge of the two catalogs\<close>

text \<open>
  A JavaScript string is a sequence of code units, and the resolution logic only compares
  strings, searches one in another and lower-cases them: a string is a list over any type
  \<open>'c\<close> of code units, so that every statement below holds for the 16-bit code units of
  the program.

  The records are untyped objects in the source. Only the fields the resolution logic
  reads are kept: \<open>name\<close> (Spigot) and \<open>title\<close> (Modrinth), each possibly undefined, an
  identifier, and the two secondary text fields the fuzzy search is configured with.
  A raw adapter record carries no provenance; the merge adds the \<open>source\<close> field, which in
  the program only ever holds one of the two string literals "Spigot" and "Modrinth".
\<close>

datatype provenance = Spigot | Modrinth

record 'c resource =
  name :: "'c list option"
  title :: "'c list option"
  ident :: "'c list"
  author :: "'c list option"
  description :: "'c list option"

record 'c plugin = "'c resource" +
  source :: provenance

text \<open>The object spread \<^verbatim>\<open>{ ...result, source: "Spigot" }\<close>: every field copied, \<open>source\<close> set.\<close>

definition tag :: "provenance \<Rightarrow> 'c resource \<Rightarrow> 'c plugin" where
  "tag s r = resource.extend r (plugin.fields s)"

text \<open>The record a merged entry was made from (its fields without the provenance).\<close>

definition untag :: "'c plugin \<Rightarrow> 'c resource" where
  "untag p = resource.truncate p"

text \<open>
  \<^verbatim>\<open>const allResults = [...spigotResults.map(tagSpigot), ...modrinthResults.map(tagModrinth)]\<close>
  in both \<open>getPluginByName\<close> and \<open>searchPlugins\<close>.
\<close>

definition combine_results :: "'c resource list \<Rightarrow> 'c resource list \<Rightarrow> 'c plugin list" where
  "combine_results spigotResults modrinthResults =
     map (tag Spigot) spigotResults @ map (tag Modrinth) modrinthResults"

section \<open>Strings\<close>

text \<open>
  \<open>String.prototype.toLowerCase\<close> is a built-in of the language, not code of the
  repository, and it is not a character-by-character map (it follows the Unicode case
  mappings). Every function below that calls it takes it as its first parameter
  \<open>toLowerCase\<close>, and the theorems hold for every such function; nothing is assumed of it.
\<close>

type_synonym 'c lowering = "'c list \<Rightarrow> 'c list"

text \<open>\<^verbatim>\<open>s.includes(t)\<close>: \<open>t\<close> occurs in \<open>s\<close> as a contiguous run of code units.\<close>

fun includes_str :: "'c list \<Rightarrow> 'c list \<Rightarrow> bool" where
  "includes_str [] t = (t = [])"
| "includes_str (c # cs) t = (prefix t (c # cs) \<or> includes_str cs t)"

section \<open>The limit of the Modrinth search\<close>

text \<open>
  Limits are JavaScript numbers; the finite ones are modelled as reals, on which
  \<open>Math.max\<close>, \<open>Math.min\<close> and the truthiness test (zero is falsy) are exact.
  An omitted argument is \<open>None\<close>.
\<close>

definition ensureValidLimit :: "real \<Rightarrow> real" where
  "ensureValidLimit v = max 1 (min 100 v)"

text \<open>
  \<^verbatim>\<open>const maxResults = limit ? limit : 10; const validLimit = ensureValidLimit(maxResults);\<close>
  The value \<open>validLimit\<close> is what \<open>ModrinthAPI\<close> passes as \<open>limit\<close> to the catalog's search
  and writes into the cache key.
\<close>

definition ModrinthAPI_maxResults :: "real option \<Rightarrow> real" where
  "ModrinthAPI_maxResults limit =
     (case limit of None \<Rightarrow> 10 | Some n \<Rightarrow> if n = 0 then 10 else n)"

definition ModrinthAPI_validLimit :: "real option \<Rightarrow> real" where
  "ModrinthAPI_validLimit limit = ensureValidLimit (ModrinthAPI_maxResults limit)"

section \<open>The read-through cache\<close>

text \<open>
  \<open>withCache\<close> of both adapters (the two copies are the same text). The cache is a
  process-wide object from keys to entries; \<open>Date.now()\<close> is read once, on entry, and is a
  parameter here. \<open>fetchData\<close> is an effectful computation: it runs on the whole state (the
  cache, since a fetch may itself go through \<open>withCache\<close>, and the rest of the world \<open>'w\<close>),
  and either throws or returns a value. Calling it is visible as its effect on the state.
\<close>

datatype js_error = Thrown string

record 'v cache_entry =
  timestamp :: int
  data :: 'v

type_synonym 'v cache = "string \<rightharpoonup> 'v cache_entry"

type_synonym ('v, 'w) fetch = "'v cache \<times> 'w \<Rightarrow> (js_error + 'v) \<times> ('v cache \<times> 'w)"

definition CACHE_TTL :: int where
  "CACHE_TTL = 5 * 60 * 1000"

text \<open>\<^verbatim>\<open>cache[key] && now - cache[key].timestamp < CACHE_TTL\<close>\<close>

definition cache_valid :: "int \<Rightarrow> string \<Rightarrow> 'v cache \<Rightarrow> bool" where
  "cache_valid now key c =
     (case c key of None \<Rightarrow> False | Some e \<Rightarrow> now - timestamp e < CACHE_TTL)"

text \<open>The miss path: \<^verbatim>\<open>const data = await fetchData(); cache[key] = { timestamp: now, data };\<close>\<close>

definition fetch_and_store ::
  "int \<Rightarrow> string \<Rightarrow> ('v, 'w) fetch \<Rightarrow> 'v cache \<times> 'w \<Rightarrow> (js_error + 'v) \<times> ('v cache \<times> 'w)"
where
  "fetch_and_store now key fetchData st =
     (case fetchData st of
        (Inl err, st') \<Rightarrow> (Inl err, st')
      | (Inr d, st') \<Rightarrow>
          (Inr d, ((fst st')(key \<mapsto> \<lparr>timestamp = now, data = d\<rparr>), snd st')))"

definition withCache ::
  "int \<Rightarrow> string \<Rightarrow> ('v, 'w) fetch \<Rightarrow> 'v cache \<times> 'w \<Rightarrow> (js_error + 'v) \<times> ('v cache \<times> 'w)"
where
  "withCache now key fetchData st =
     (case fst st key of
        None \<Rightarrow> fetch_and_store now key fetchData st
      | Some e \<Rightarrow>
          if now - timestamp e < CACHE_TTL then (Inr (data e), st)
          else fetch_and_store now key fetchData st)"

section \<open>Name matching\<close>

text \<open>
  \<^verbatim>\<open>const name = result.source === "Modrinth" ? result.title : result.name;\<close>
\<close>

definition resultName :: "'c plugin \<Rightarrow> 'c list option" where
  "resultName r = (if source r = Modrinth then title r else name r)"

text \<open>
  Every use of that name is guarded by its truthiness (\<^verbatim>\<open>name && ...\<close>, \<^verbatim>\<open>if (name)\<close>): an
  undefined name and the empty string are both treated as no name at all. \<open>displayName\<close> is
  the name a record is matched under, when it has one.
\<close>

definition displayName :: "'c plugin \<Rightarrow> 'c list option" where
  "displayName r =
     (case resultName r of None \<Rightarrow> None | Some n \<Rightarrow> if n = [] then None else Some n)"

text \<open>
  \<^verbatim>\<open>nameMap.set(lowerName, (nameMap.get(lowerName) || 0) + 1)\<close> for each record with a name.
\<close>

definition nameMap_add ::
  "'c lowering \<Rightarrow> 'c plugin \<Rightarrow> ('c list \<rightharpoonup> nat) \<Rightarrow> ('c list \<rightharpoonup> nat)"
where
  "nameMap_add toLowerCase r m =
     (case resultName r of
        None \<Rightarrow> m
      | Some n \<Rightarrow>
          if n = [] then m
          else m(toLowerCase n \<mapsto> (case m (toLowerCase n) of None \<Rightarrow> 0 | Some c \<Rightarrow> c) + 1))"

definition build_nameMap :: "'c lowering \<Rightarrow> 'c plugin list \<Rightarrow> ('c list \<rightharpoonup> nat)" where
  "build_nameMap toLowerCase allRes = fold (nameMap_add toLowerCase) allRes Map.empty"

text \<open>\<^verbatim>\<open>name && name.toLowerCase() === exactMatchName\<close>\<close>

definition is_exact :: "'c lowering \<Rightarrow> 'c list \<Rightarrow> 'c plugin \<Rightarrow> bool" where
  "is_exact toLowerCase exactMatchName r =
     (case resultName r of
        None \<Rightarrow> False
      | Some n \<Rightarrow> n \<noteq> [] \<and> toLowerCase n = exactMatchName)"

text \<open>\<^verbatim>\<open>name && name.toLowerCase().includes(exactMatchName)\<close>\<close>

definition is_containing :: "'c lowering \<Rightarrow> 'c list \<Rightarrow> 'c plugin \<Rightarrow> bool" where
  "is_containing toLowerCase exactMatchName r =
     (case resultName r of
        None \<Rightarrow> False
      | Some n \<Rightarrow> n \<noteq> [] \<and> includes_str (toLowerCase n) exactMatchName)"

section \<open>Fuzzy search\<close>

text \<open>
  Fuse.js is a library outside the repository: its search is a parameter \<open>fuse\<close>, from the
  query and the collection to the list of hits, each with its item and (since
  \<open>includeScore\<close> is set) a score, which the code still tests against \<open>undefined\<close>.
  Scores and thresholds are the reals that the floating-point numbers denote; they are only
  compared.
\<close>

record 'c fuse_result =
  item :: "'c plugin"
  score :: "real option"

type_synonym 'c fuse_search = "'c list \<Rightarrow> 'c plugin list \<Rightarrow> 'c fuse_result list"

record FuzzySearchOptions =
  threshold :: "real option"
  includeAllOnNoMatch :: "bool option"

record 'c FuzzySearchResult =
  results :: "'c plugin list"
  bestMatch :: "'c plugin option"
  hasGoodMatch :: bool
  allResults :: "'c plugin list"

text \<open>
  \<open>Array.prototype.sort\<close> is stable, and with a consistent comparator its result is the
  unique stable arrangement; it is modelled by a stable insertion sort on the comparator's
  sign.
\<close>

fun insert_by :: "('a \<Rightarrow> 'a \<Rightarrow> int) \<Rightarrow> 'a \<Rightarrow> 'a list \<Rightarrow> 'a list" where
  "insert_by cmp x [] = [x]"
| "insert_by cmp x (y # ys) = (if cmp x y \<le> 0 then x # y # ys else y # insert_by cmp x ys)"

definition js_sort :: "('a \<Rightarrow> 'a \<Rightarrow> int) \<Rightarrow> 'a list \<Rightarrow> 'a list" where
  "js_sort cmp xs = foldr (insert_by cmp) xs []"

text \<open>The comparator of \<open>fuzzySearch\<close>: Spigot first, then Modrinth.\<close>

definition by_source :: "'c plugin \<Rightarrow> 'c plugin \<Rightarrow> int" where
  "by_source a b =
     (if source a = Spigot \<and> source b = Modrinth then - 1
      else if source a = Modrinth \<and> source b = Spigot then 1
      else 0)"

text \<open>\<^verbatim>\<open>result.score !== undefined && result.score < threshold\<close>\<close>

definition below_threshold :: "real \<Rightarrow> 'c fuse_result \<Rightarrow> bool" where
  "below_threshold t res = (case score res of None \<Rightarrow> False | Some sc \<Rightarrow> sc < t)"

definition filteredResults ::
  "'c fuse_search \<Rightarrow> 'c list \<Rightarrow> 'c plugin list \<Rightarrow> real \<Rightarrow> 'c plugin list"
where
  "filteredResults fuse query items t = map item (filter (below_threshold t) (fuse query items))"

definition sortedResults ::
  "'c fuse_search \<Rightarrow> 'c list \<Rightarrow> 'c plugin list \<Rightarrow> real \<Rightarrow> 'c plugin list"
where
  "sortedResults fuse query items t = js_sort by_source (filteredResults fuse query items t)"

definition fuzzySearch ::
  "'c lowering \<Rightarrow> 'c fuse_search \<Rightarrow> 'c list \<Rightarrow> 'c plugin list \<Rightarrow> FuzzySearchOptions
     \<Rightarrow> 'c FuzzySearchResult"
where
  "fuzzySearch toLowerCase fuse query items options =
     (let t = (case threshold options of
                 None \<Rightarrow> 0.2
               | Some v \<Rightarrow> if v = 0 then 0.2 else v);
          includeAll = (includeAllOnNoMatch options \<noteq> Some False)
      in case find (is_exact toLowerCase (toLowerCase query)) items of
           Some exactMatch \<Rightarrow>
             \<lparr>results = [exactMatch], bestMatch = Some exactMatch,
              hasGoodMatch = True, allResults = items\<rparr>
         | None \<Rightarrow>
             (case items of
                [only] \<Rightarrow>
                  \<lparr>results = items, bestMatch = Some only,
                   hasGoodMatch = True, allResults = items\<rparr>
              | _ \<Rightarrow>
                  (let fuseResults = fuse query items;
                       sorted = sortedResults fuse query items t;
                       best = (case fuseResults of
                                 [] \<Rightarrow> None
                               | res # _ \<Rightarrow>
                                   if below_threshold t res then Some (item res) else None);
                       good = (length sorted > 0)
                   in \<lparr>results = (if good then sorted else if includeAll then items else []),
                       bestMatch = best, hasGoodMatch = good, allResults = items\<rparr>)))"

section \<open>The disambiguation decision\<close>

text \<open>
  What \<open>processSearchResults\<close> shows is its result here: \<open>Empty\<close> for
  \<^verbatim>\<open>spinner.fail("No plugins found ...")\<close>, \<open>SingleMatch r\<close> for a call of
  \<open>displayPluginDetails\<close> on \<open>r\<close>, and \<open>CandidateSet rs reason\<close> for a call of
  \<open>displaySearchResults\<close> on \<open>rs\<close>, the reason telling which message precedes the table:
  \<open>ExactNameCollision\<close> for "Found ... exact matches and ... partial matches",
  \<open>FuzzyMultipleGood\<close> for "Multiple matches found.", and \<open>NoGoodMatch\<close> for
  "No close matches found. Showing all ... results."
\<close>

datatype reason = ExactNameCollision | FuzzyMultipleGood | NoGoodMatch

datatype 'c outcome = Empty | SingleMatch "'c plugin" | CandidateSet "'c plugin list" reason

text \<open>
  \<^verbatim>\<open>bestMatchName ? (nameMap.get(bestMatchName.toLowerCase()) || 0) > 1 : false\<close>
\<close>

definition hasDuplicates :: "'c lowering \<Rightarrow> ('c list \<rightharpoonup> nat) \<Rightarrow> 'c plugin \<Rightarrow> bool" where
  "hasDuplicates toLowerCase nameMap bestMatch_r =
     (case resultName bestMatch_r of
        None \<Rightarrow> False
      | Some n \<Rightarrow>
          if n = [] then False
          else (case nameMap (toLowerCase n) of None \<Rightarrow> 0 | Some c \<Rightarrow> c) > 1)"

definition processSearchResults ::
  "'c lowering \<Rightarrow> 'c fuse_search \<Rightarrow> 'c list \<Rightarrow> 'c plugin list \<Rightarrow> 'c outcome"
where
  "processSearchResults toLowerCase fuse query allRes =
     (if length allRes = 0 then Empty
      else
        let nameMap = build_nameMap toLowerCase allRes;
            exactMatchName = toLowerCase query;
            exactMatches = filter (is_exact toLowerCase exactMatchName) allRes
        in if length exactMatches \<ge> 1 then
             CandidateSet (filter (is_containing toLowerCase exactMatchName) allRes)
               ExactNameCollision
           else
             (case allRes of
                [only] \<Rightarrow> SingleMatch only
              | _ \<Rightarrow>
                  (let searchResults =
                         fuzzySearch toLowerCase fuse query allRes
                           \<lparr>threshold = Some 0.2, includeAllOnNoMatch = None\<rparr>;
                       filtered = results searchResults
                   in case filtered of
                        bestMatch_r # rest \<Rightarrow>
                          if length filtered = 1
                             \<and> \<not> hasDuplicates toLowerCase nameMap bestMatch_r
                          then SingleMatch bestMatch_r
                          else CandidateSet filtered FuzzyMultipleGood
                      | [] \<Rightarrow> CandidateSet allRes NoGoodMatch)))"

section \<open>Collecting the two searches\<close>

text \<open>
  What one adapter call does: it throws, or it returns null, or it returns a list
  (\<open>SpigotAPI\<close> returns null on failure, \<open>ModrinthAPI\<close> an empty list, and either may throw).
\<close>

type_synonym 'c adapter_call = "js_error + 'c resource list option"

text \<open>
  One search task of \<open>getPluginByName\<close>:
  \<^verbatim>\<open>try { const results = await Api(query, 5); if (results) { xs = results; } } catch (error) {}\<close>
  It yields the new value of the variable it assigns, or the error that escapes it.
\<close>

definition search_task ::
  "'c adapter_call \<Rightarrow> 'c resource list \<Rightarrow> js_error + 'c resource list"
where
  "search_task call current =
     (case call of
        Inl err \<Rightarrow> Inr current
      | Inr None \<Rightarrow> Inr current
      | Inr (Some rs) \<Rightarrow> Inr rs)"

text \<open>
  \<open>getPluginByName\<close>: the tasks selected by \<open>source\<close> are awaited together (an error
  escaping a task would reject \<open>Promise.all\<close> and escape the function), their lists are
  merged, and the merged list is resolved. The merged list is returned with the outcome.
\<close>

definition getPluginByName ::
  "'c lowering \<Rightarrow> 'c fuse_search \<Rightarrow> 'c list \<Rightarrow> string \<Rightarrow> 'c adapter_call \<Rightarrow> 'c adapter_call
     \<Rightarrow> js_error + ('c plugin list \<times> 'c outcome)"
where
  "getPluginByName toLowerCase fuse query src spigotCall modrinthCall =
     (case (if src = ''all'' \<or> src = ''spigot'' then search_task spigotCall [] else Inr []) of
        Inl err \<Rightarrow> Inl err
      | Inr spigotResults \<Rightarrow>
          (case (if src = ''all'' \<or> src = ''modrinth'' then search_task modrinthCall []
                 else Inr []) of
             Inl err \<Rightarrow> Inl err
           | Inr modrinthResults \<Rightarrow>
               (let allRes = combine_results spigotResults modrinthResults
                in Inr (allRes, processSearchResults toLowerCase fuse query allRes))))"

section \<open>Auxiliary notions for the statements\<close>

text \<open>How many records of a list have a given lower-cased display name.\<close>

definition name_frequency :: "'c lowering \<Rightarrow> 'c plugin list \<Rightarrow> 'c list \<Rightarrow> nat" where
  "name_frequency toLowerCase rs k =
     length (filter (\<lambda>r. map_option toLowerCase (displayName r) = Some k) rs)"

text \<open>An adapter call that contributes nothing: it threw, or it returned null.\<close>

definition call_failed :: "'c adapter_call \<Rightarrow> bool" where
  "call_failed call = (case call of Inl err \<Rightarrow> True | Inr None \<Rightarrow> True | Inr (Some rs) \<Rightarrow> False)"

text \<open>
  The concrete scenarios below are written with strings of ASCII characters. On such
  strings \<open>toLowerCase\<close> maps the letters A to Z to a to z and leaves every other character
  as it is; \<open>ascii_lower\<close> is that function, and it stands for \<open>toLowerCase\<close> in the
  scenarios only, where every string is ASCII.
\<close>

definition ascii_lower_char :: "char \<Rightarrow> char" where
  "ascii_lower_char c =
     (case map_of (zip ''ABCDEFGHIJKLMNOPQRSTUVWXYZ'' ''abcdefghijklmnopqrstuvwxyz'') c of
        Some d \<Rightarrow> d
      | None \<Rightarrow> c)"

definition ascii_lower :: "string \<Rightarrow> string" where
  "ascii_lower s = map ascii_lower_char s"

text \<open>Records for the concrete scenarios: a Spigot record has a \<open>name\<close>, a Modrinth hit a \<open>title\<close>.\<close>

definition spigot_resource :: "string \<Rightarrow> string \<Rightarrow> char resource" where
  "spigot_resource n i =
     \<lparr>name = Some n, title = None, ident = i, author = None, description = None\<rparr>"

definition modrinth_resource :: "string \<Rightarrow> string \<Rightarrow> char resource" where
  "modrinth_resource n i =
     \<lparr>name = None, title = Some n, ident = i, author = None, description = None\<rparr>"

text \<open>A Modrinth hit without a title, found only through its author.\<close>

definition untitled_resource :: "string \<Rightarrow> string \<Rightarrow> char resource" where
  "untitled_resource a i =
     \<lparr>name = None, title = None, ident = i, author = Some a, description = None\<rparr>"

section \<open>Basic facts\<close>

lemma source_tag: "source (tag s r) = s"
  by (simp add: tag_def resource.defs plugin.defs)

lemma untag_tag: "untag (tag s r) = r"
  by (simp add: tag_def untag_def resource.defs plugin.defs)

lemma name_tag: "name (tag s r) = name r"
  by (simp add: tag_def resource.defs plugin.defs)

lemma title_tag: "title (tag s r) = title r"
  by (simp add: tag_def resource.defs plugin.defs)

lemma includes_str_sublist: "includes_str s t \<longleftrightarrow> sublist t s"
  by (induction s) (auto simp: sublist_Cons_right)

lemma insert_by_spigot: "source x = Spigot \<Longrightarrow> insert_by by_source x ys = x # ys"
  by (cases ys) (simp_all add: by_source_def)

lemma insert_by_modrinth:
  "source x = Modrinth \<Longrightarrow> \<forall>a\<in>set as. source a = Spigot \<Longrightarrow> \<forall>b\<in>set bs. source b = Modrinth
   \<Longrightarrow> insert_by by_source x (as @ bs) = as @ x # bs"
proof (induction as)
  case Nil
  then show ?case by (cases bs) (simp_all add: by_source_def)
next
  case (Cons a as)
  then show ?case by (simp add: by_source_def)
qed

lemma js_sort_by_source:
  "js_sort by_source xs = filter (\<lambda>p. source p = Spigot) xs @ filter (\<lambda>p. source p = Modrinth) xs"
proof (induction xs)
  case Nil
  show ?case by (simp add: js_sort_def)
next
  case (Cons x xs)
  have step: "js_sort by_source (x # xs) = insert_by by_source x (js_sort by_source xs)"
    by (simp add: js_sort_def)
  show ?case
  proof (cases "source x")
    case Spigot
    then show ?thesis using Cons.IH step by (simp add: insert_by_spigot)
  next
    case Modrinth
    have "insert_by by_source x (filter (\<lambda>p. source p = Spigot) xs @ filter (\<lambda>p. source p = Modrinth) xs)
          = filter (\<lambda>p. source p = Spigot) xs @ x # filter (\<lambda>p. source p = Modrinth) xs"
      by (rule insert_by_modrinth[OF Modrinth]) simp_all
    then show ?thesis using Cons.IH step Modrinth by simp
  qed
qed

lemma nameMap_add_lookup:
  "nameMap_add toLowerCase r m k =
     (if map_option toLowerCase (displayName r) = Some k
      then Some ((case m k of None \<Rightarrow> 0 | Some c \<Rightarrow> c) + 1) else m k)"
  by (auto simp: nameMap_add_def displayName_def split: option.splits)

lemma fold_nameMap_add:
  "fold (nameMap_add toLowerCase) rs m k =
     (if name_frequency toLowerCase rs k = 0 then m k
      else Some ((case m k of None \<Rightarrow> 0 | Some c \<Rightarrow> c) + name_frequency toLowerCase rs k))"
proof (induction rs arbitrary: m)
  case Nil
  show ?case by (simp add: name_frequency_def)
next
  case (Cons r rs)
  have freq: "name_frequency toLowerCase (r # rs) k =
      (if map_option toLowerCase (displayName r) = Some k then 1 else 0) + name_frequency toLowerCase rs k"
    by (simp add: name_frequency_def)
  have "fold (nameMap_add toLowerCase) (r # rs) m k = fold (nameMap_add toLowerCase) rs (nameMap_add toLowerCase r m) k"
    by simp
  also have "\<dots> = (if name_frequency toLowerCase rs k = 0 then nameMap_add toLowerCase r m k
      else Some ((case nameMap_add toLowerCase r m k of None \<Rightarrow> 0 | Some c \<Rightarrow> c) + name_frequency toLowerCase rs k))"
    by (rule Cons.IH)
  finally show ?case
    unfolding freq nameMap_add_lookup [of toLowerCase r m k] by (simp split: option.splits)
qed

lemma build_nameMap_frequency:
  "build_nameMap toLowerCase rs k = (if name_frequency toLowerCase rs k = 0 then None else Some (name_frequency toLowerCase rs k))"
  by (simp add: build_nameMap_def fold_nameMap_add)

lemma find_None_filter: "find P xs = None \<longleftrightarrow> filter P xs = []"
  by (induction xs) auto


lemma displayName_Some_iff:
  "displayName r = Some n \<longleftrightarrow> resultName r = Some n \<and> n \<noteq> []"
  by (auto simp: displayName_def split: option.splits)

lemma is_exact_iff:
  "is_exact toLowerCase (toLowerCase q) r \<longleftrightarrow> (\<exists>n. displayName r = Some n \<and> toLowerCase n = toLowerCase q)"
  by (auto simp: is_exact_def displayName_Some_iff split: option.splits)

lemma is_containing_iff:
  "is_containing toLowerCase (toLowerCase q) r \<longleftrightarrow>
     (\<exists>n. displayName r = Some n \<and> sublist (toLowerCase q) (toLowerCase n))"
  by (auto simp: is_containing_def displayName_Some_iff includes_str_sublist split: option.splits)

lemma hasDuplicates_iff:
  "hasDuplicates toLowerCase m r \<longleftrightarrow> (\<exists>n c. displayName r = Some n \<and> m (toLowerCase n) = Some c \<and> 1 < c)"
  by (auto simp: hasDuplicates_def displayName_Some_iff split: option.splits)

lemma two_or_more: "2 \<le> length rs \<Longrightarrow> \<exists>a b rest. rs = a # b # rest"
  by (cases rs; cases "tl rs") auto

lemma fuzzySearch_results:
  assumes "2 \<le> length rs" and "filter (is_exact toLowerCase (toLowerCase q)) rs = []"
  shows "results (fuzzySearch toLowerCase fuse q rs \<lparr>threshold = Some 0.2, includeAllOnNoMatch = None\<rparr>)
         = (if sortedResults fuse q rs 0.2 = [] then rs else sortedResults fuse q rs 0.2)"
proof -
  obtain a b rest where rs: "rs = a # b # rest" using two_or_more[OF assms(1)] by blast
  have nf: "find (is_exact toLowerCase (toLowerCase q)) rs = None"
    using assms(2) by (simp add: find_None_filter)
  show ?thesis
    unfolding fuzzySearch_def using nf by (simp add: rs Let_def)
qed

lemma processSearchResults_unfold:
  assumes "2 \<le> length rs" and "filter (is_exact toLowerCase (toLowerCase q)) rs = []"
  shows "processSearchResults toLowerCase fuse q rs =
     (case results (fuzzySearch toLowerCase fuse q rs \<lparr>threshold = Some 0.2, includeAllOnNoMatch = None\<rparr>) of
        [] \<Rightarrow> CandidateSet rs NoGoodMatch
      | r # rest \<Rightarrow>
          if rest = [] \<and> \<not> hasDuplicates toLowerCase (build_nameMap toLowerCase rs) r then SingleMatch r
          else CandidateSet (r # rest) FuzzyMultipleGood)"
proof -
  obtain a b rest where rs: "rs = a # b # rest" using two_or_more[OF assms(1)] by blast
  define opts where "opts = \<lparr>threshold = Some (0.2::real), includeAllOnNoMatch = None\<rparr>"
  have ex: "filter (is_exact toLowerCase (toLowerCase q)) (a # b # rest) = []"
    using assms(2) by (simp add: rs)
  show ?thesis
    unfolding processSearchResults_def opts_def [symmetric] rs
    by (simp only: Let_def ex list.case list.size) (simp split: list.splits)
qed

lemma processSearchResults_fuzzy:
  assumes "2 \<le> length rs" and "filter (is_exact toLowerCase (toLowerCase q)) rs = []"
  shows "processSearchResults toLowerCase fuse q rs =
     (case sortedResults fuse q rs 0.2 of
        [] \<Rightarrow> CandidateSet rs FuzzyMultipleGood
      | r # rest \<Rightarrow>
          if rest = [] \<and> \<not> hasDuplicates toLowerCase (build_nameMap toLowerCase rs) r then SingleMatch r
          else CandidateSet (r # rest) FuzzyMultipleGood)"
proof -
  obtain a b rest where rs: "rs = a # b # rest" using two_or_more[OF assms(1)] by blast
  define kept where "kept = sortedResults fuse q rs 0.2"
  have res: "results (fuzzySearch toLowerCase fuse q rs \<lparr>threshold = Some 0.2, includeAllOnNoMatch = None\<rparr>)
         = (if kept = [] then rs else kept)"
    unfolding kept_def by (rule fuzzySearch_results[OF assms])
  show ?thesis
    unfolding processSearchResults_unfold[OF assms] res kept_def [symmetric]
    by (cases kept) (simp_all add: rs)
qed

lemma tag_eq_iff: "tag s r = tag s' r' \<longleftrightarrow> s = s' \<and> r = r'"
  by (metis source_tag untag_tag)

lemma resultName_tag:
  "resultName (tag Spigot r) = name r" "resultName (tag Modrinth r) = title r"
  by (simp_all add: resultName_def source_tag name_tag title_tag)

lemmas example_simps =
  resultName_tag displayName_def spigot_resource_def modrinth_resource_def
  untitled_resource_def ascii_lower_def ascii_lower_char_def source_tag tag_eq_iff

lemma below_threshold_iff: "below_threshold t x \<longleftrightarrow> (\<exists>sc. score x = Some sc \<and> sc < t)"
  by (auto simp: below_threshold_def split: option.splits)

lemma sortedResults_eq:
  "sortedResults fuse q items t =
     filter (\<lambda>p. source p = Spigot) (filteredResults fuse q items t)
     @ filter (\<lambda>p. source p = Modrinth) (filteredResults fuse q items t)"
  by (simp add: sortedResults_def js_sort_by_source)

lemma mset_by_source:
  "mset (filter (\<lambda>p. source p = Spigot) xs @ filter (\<lambda>p. source p = Modrinth) xs) = mset xs"
proof (induction xs)
  case Nil
  show ?case by simp
next
  case (Cons a xs)
  then show ?case by (cases "source a") simp_all
qed

lemma set_sortedResults:
  "set (sortedResults fuse q items t) \<subseteq> item ` set (fuse q items)"
  by (auto simp: sortedResults_eq filteredResults_def)

lemma sortedResults_Nil:
  assumes "\<forall>x\<in>set (fuse q rs). \<not> below_threshold t x"
  shows "sortedResults fuse q rs t = []"
proof -
  have "filter (below_threshold t) (fuse q rs) = []"
    using assms by (simp add: filter_empty_conv)
  then show ?thesis by (simp add: sortedResults_eq filteredResults_def)
qed

lemma no_exact_filter:
  assumes "\<not> (\<exists>r\<in>set rs. \<exists>n. displayName r = Some n \<and> toLowerCase n = toLowerCase q)"
  shows "filter (is_exact toLowerCase (toLowerCase q)) rs = []"
  using assms by (auto simp: filter_empty_conv is_exact_iff)

lemma NoGoodMatch_never_shown:
  "processSearchResults toLowerCase fuse q rs \<noteq> CandidateSet xs NoGoodMatch"
proof (cases "filter (is_exact toLowerCase (toLowerCase q)) rs = []")
  case False
  then have "1 \<le> length (filter (is_exact toLowerCase (toLowerCase q)) rs)"
    by (cases "filter (is_exact toLowerCase (toLowerCase q)) rs") simp_all
  then show ?thesis by (simp add: processSearchResults_def Let_def)
next
  case True
  consider "rs = []" | r where "rs = [r]" | "2 \<le> length rs"
    by (cases rs; cases "tl rs") auto
  then show ?thesis
  proof cases
    case 1
    then show ?thesis by (simp add: processSearchResults_def)
  next
    case 2
    then show ?thesis using True by (simp add: processSearchResults_def Let_def)
  next
    case 3
    show ?thesis
      by (simp add: processSearchResults_fuzzy [OF 3 True] split: list.splits)
  qed
qed

lemmas eval_simps =
  example_simps sortedResults_def filteredResults_def below_threshold_def js_sort_def
  by_source_def build_nameMap_def nameMap_add_def

lemma cache_valid_iff:
  "cache_valid now key c \<longleftrightarrow> (\<exists>e. c key = Some e \<and> now - timestamp e < CACHE_TTL)"
  by (auto simp: cache_valid_def split: option.splits)

lemma withCache_hit:
  "c key = Some e \<Longrightarrow> now - timestamp e < CACHE_TTL \<Longrightarrow>
   withCache now key f (c, w) = (Inr (data e), (c, w))"
  by (simp add: withCache_def)

lemma withCache_miss:
  "\<not> cache_valid now key (fst st) \<Longrightarrow> withCache now key f st = fetch_and_store now key f st"
  by (auto simp: withCache_def cache_valid_def split: option.splits)

lemma withCache_valid:
  "cache_valid now key (fst st) \<Longrightarrow>
   withCache now key f st = (Inr (data (the (fst st key))), st)"
  by (auto simp: withCache_def cache_valid_def split: option.splits)

lemma search_task_failed: "call_failed call \<Longrightarrow> search_task call cur = Inr cur"
  by (auto simp: call_failed_def search_task_def split: sum.splits option.splits)

lemma search_task_Inr: "\<exists>rs. search_task call cur = Inr rs"
  by (auto simp: search_task_def split: sum.splits option.splits)

text \<open>
  The outcome depends on the lower-casing function only through its values on the query,
  on the names in the list and on the names of the Fuse hits: two functions that agree
  there give the same outcome.
\<close>

lemma processSearchResults_cong_lower:
  assumes q: "lower q = lower' q"
    and rs: "\<forall>r\<in>set rs. \<forall>n. resultName r = Some n \<longrightarrow> lower n = lower' n"
    and hits: "\<forall>x\<in>set (fuse q rs). \<forall>n. resultName (item x) = Some n \<longrightarrow> lower n = lower' n"
  shows "processSearchResults lower fuse q rs = processSearchResults lower' fuse q rs"
proof -
  have ex: "is_exact lower (lower q) r = is_exact lower' (lower' q) r" if "r \<in> set rs" for r
    using that q rs by (auto simp: is_exact_def split: option.splits)
  have co: "is_containing lower (lower q) r = is_containing lower' (lower' q) r"
    if "r \<in> set rs" for r
    using that q rs by (auto simp: is_containing_def split: option.splits)
  have exs: "filter (is_exact lower (lower q)) rs = filter (is_exact lower' (lower' q)) rs"
    using ex by (intro filter_cong) auto
  have cos: "filter (is_containing lower (lower q)) rs = filter (is_containing lower' (lower' q)) rs"
    using co by (intro filter_cong) auto
  have "nameMap_add lower r = nameMap_add lower' r" if "r \<in> set rs" for r
    using that rs by (intro ext) (auto simp: nameMap_add_def split: option.splits)
  then have nm: "build_nameMap lower rs = build_nameMap lower' rs"
    unfolding build_nameMap_def by (intro fold_cong) auto
  have dup: "hasDuplicates lower m b = hasDuplicates lower' m b"
    if "b \<in> item ` set (fuse q rs)" for m b
    using that hits by (auto simp: hasDuplicates_def split: option.splits)
  consider "rs = []" | "filter (is_exact lower (lower q)) rs \<noteq> []"
    | r where "rs = [r]" "filter (is_exact lower (lower q)) rs = []"
    | "2 \<le> length rs" "filter (is_exact lower (lower q)) rs = []"
    by (cases rs; cases "tl rs") auto
  then show ?thesis
  proof cases
    case 1
    then show ?thesis by (simp add: processSearchResults_def)
  next
    case 2
    then have "1 \<le> length (filter (is_exact lower (lower q)) rs)"
      by (cases "filter (is_exact lower (lower q)) rs") simp_all
    moreover have "rs \<noteq> []" using 2 by auto
    ultimately show ?thesis
      using exs cos by (simp add: processSearchResults_def Let_def)
  next
    case 3
    then show ?thesis
      using exs by (simp add: processSearchResults_def Let_def)
  next
    case 4
    have noex': "filter (is_exact lower' (lower' q)) rs = []" using 4(2) exs by simp
    have "hasDuplicates lower (build_nameMap lower rs) b
          = hasDuplicates lower' (build_nameMap lower' rs) b"
      if "sortedResults fuse q rs 0.2 = b # rest" for b rest
    proof -
      have "b \<in> set (sortedResults fuse q rs 0.2)" using that by simp
      then have "b \<in> item ` set (fuse q rs)" using set_sortedResults by blast
      then show ?thesis using dup nm by simp
    qed
    then show ?thesis
      unfolding processSearchResults_fuzzy [OF 4] processSearchResults_fuzzy [OF 4(1) noex']
      by (auto split: list.splits)
  qed
qed

section \<open>Merge order\<close>

text \<open>
  Claim C5. For \<open>listA\<close> of length \<open>m\<close> and \<open>listB\<close> of length \<open>n\<close> the merged list has length
  \<open>m + n\<close>; its first \<open>m\<close> entries are the records of \<open>listA\<close> in their order, each tagged
  Spigot, and the remaining \<open>n\<close> entries are the records of \<open>listB\<close> in their order, each
  tagged Modrinth. The tag is the one written by the merge, and nothing is re-sorted.
\<close>

theorem combine_results_order:
  "length (combine_results listA listB) = length listA + length listB
   \<and> map untag (take (length listA) (combine_results listA listB)) = listA
   \<and> map source (take (length listA) (combine_results listA listB))
       = replicate (length listA) Spigot
   \<and> map untag (drop (length listA) (combine_results listA listB)) = listB
   \<and> map source (drop (length listA) (combine_results listA listB))
       = replicate (length listB) Modrinth
   \<and> map untag (combine_results listA listB) = listA @ listB"
  by (simp add: combine_results_def o_def untag_tag source_tag map_replicate_const)

section \<open>The exact-match branch\<close>

text \<open>
  Claim C1. For a non-empty merged list and any query: if at least one record's display
  name equals the query case-insensitively (their lower-cased forms are the same string),
  the outcome is the candidate set of all records whose lower-cased display name contains
  the lower-cased query, in list order, with reason \<open>ExactNameCollision\<close>. This holds for
  every lower-casing function \<open>toLowerCase\<close>, so for the built-in one on any strings.
  Neither the length of the list nor the fuzzy search (\<open>fuse\<close> is arbitrary) plays a part,
  and the candidate set may have a single element. A record has a display name when its
  name field is defined and not the empty string.
\<close>

theorem exact_match_candidate_set:
  assumes "rs \<noteq> []"
    and "\<exists>r\<in>set rs. \<exists>n. displayName r = Some n \<and> toLowerCase n = toLowerCase q"
  shows "processSearchResults toLowerCase fuse q rs =
           CandidateSet
             (filter (\<lambda>r. \<exists>n. displayName r = Some n \<and> sublist (toLowerCase q) (toLowerCase n)) rs)
             ExactNameCollision"
proof -
  have "filter (is_exact toLowerCase (toLowerCase q)) rs \<noteq> []"
    using assms(2) by (auto simp: filter_empty_conv is_exact_iff)
  then have "1 \<le> length (filter (is_exact toLowerCase (toLowerCase q)) rs)"
    by (cases "filter (is_exact toLowerCase (toLowerCase q)) rs") simp_all
  moreover have "is_containing toLowerCase (toLowerCase q) =
      (\<lambda>r. \<exists>n. displayName r = Some n \<and> sublist (toLowerCase q) (toLowerCase n))"
    by (rule ext) (rule is_containing_iff)
  ultimately show ?thesis
    using assms(1) by (simp add: processSearchResults_def)
qed

text \<open>One exact hit alone, and one exact hit with a second record containing the query.\<close>

theorem exact_match_candidate_set_witness:
  "processSearchResults ascii_lower (\<lambda>query items. []) ''worldedit''
     [tag Spigot (spigot_resource ''WorldEdit'' ''1'')]
   = CandidateSet [tag Spigot (spigot_resource ''WorldEdit'' ''1'')] ExactNameCollision
   \<and> processSearchResults ascii_lower (\<lambda>query items. []) ''Vault''
     [tag Spigot (spigot_resource ''Vault'' ''1''), tag Spigot (spigot_resource ''WorldEdit'' ''2''),
      tag Modrinth (modrinth_resource ''VaultChat'' ''v'')]
   = CandidateSet [tag Spigot (spigot_resource ''Vault'' ''1''),
       tag Modrinth (modrinth_resource ''VaultChat'' ''v'')] ExactNameCollision"
  using exact_match_candidate_set
          [where toLowerCase = ascii_lower and fuse = "\<lambda>query items. []" and q = "''worldedit''"
             and rs = "[tag Spigot (spigot_resource ''WorldEdit'' ''1'')]"]
        exact_match_candidate_set
          [where toLowerCase = ascii_lower and fuse = "\<lambda>query items. []" and q = "''Vault''"
             and rs = "[tag Spigot (spigot_resource ''Vault'' ''1''),
                        tag Spigot (spigot_resource ''WorldEdit'' ''2''),
                        tag Modrinth (modrinth_resource ''VaultChat'' ''v'')]"]
  by (simp add: example_simps sublist_code)

section \<open>A list of one record\<close>

text \<open>
  Claim C2, as the code has it. For a merged list of exactly one record: when the record's
  display name equals the query case-insensitively (their lower-cased forms are the same
  string, for whatever lower-casing function \<open>toLowerCase\<close> is), the exact-match branch
  runs first and the outcome is the one-element candidate set with reason
  \<open>ExactNameCollision\<close>; only otherwise does the single-element fast path return
  \<open>SingleMatch\<close> of that record.
\<close>

theorem single_record_decision:
  "processSearchResults toLowerCase fuse q [r] =
     (if \<exists>n. displayName r = Some n \<and> toLowerCase n = toLowerCase q
      then CandidateSet [r] ExactNameCollision
      else SingleMatch r)"
proof (cases "is_exact toLowerCase (toLowerCase q) r")
  case True
  then obtain n where n: "displayName r = Some n" "toLowerCase n = toLowerCase q"
    by (auto simp: is_exact_iff)
  then have "is_containing toLowerCase (toLowerCase q) r"
    by (auto simp: is_containing_iff)
  with True have "processSearchResults toLowerCase fuse q [r] = CandidateSet [r] ExactNameCollision"
    by (simp add: processSearchResults_def Let_def)
  then show ?thesis
    using n by auto
next
  case False
  have "\<not> (\<exists>n. displayName r = Some n \<and> toLowerCase n = toLowerCase q)"
    using False by (simp add: is_exact_iff)
  moreover have "processSearchResults toLowerCase fuse q [r] = SingleMatch r"
    using False by (simp add: processSearchResults_def Let_def)
  ultimately show ?thesis by simp
qed

theorem single_record_decision_witness:
  "processSearchResults ascii_lower (\<lambda>query items. []) ''worldedit''
     [tag Spigot (spigot_resource ''WorldEdit'' ''1'')]
   = CandidateSet [tag Spigot (spigot_resource ''WorldEdit'' ''1'')] ExactNameCollision
   \<and> processSearchResults ascii_lower (\<lambda>query items. []) ''zzz-unmatched''
     [tag Spigot (spigot_resource ''WorldEdit'' ''1'')]
   = SingleMatch (tag Spigot (spigot_resource ''WorldEdit'' ''1''))"
  using
    single_record_decision
      [where toLowerCase = ascii_lower and fuse = "\<lambda>query items. []" and q = "''worldedit''"
         and r = "tag Spigot (spigot_resource ''WorldEdit'' ''1'')"]
    single_record_decision
      [where toLowerCase = ascii_lower and fuse = "\<lambda>query items. []" and q = "''zzz-unmatched''"
         and r = "tag Spigot (spigot_resource ''WorldEdit'' ''1'')"]
  by (simp add: example_simps sublist_code)

text \<open>
  The claim as stated fails on its own example: the list with the one record "WorldEdit"
  and the query "worldedit" does not give \<open>SingleMatch\<close>.
\<close>

theorem scenario1_not_single_match:
  "processSearchResults ascii_lower (\<lambda>query items. []) ''worldedit''
     [tag Spigot (spigot_resource ''WorldEdit'' ''1'')]
   \<noteq> SingleMatch (tag Spigot (spigot_resource ''WorldEdit'' ''1''))"
  by (simp add: processSearchResults_def is_exact_def is_containing_def example_simps)


section \<open>The fuzzy branch\<close>

text \<open>
  Claim C9. With the threshold 0.2 the kept list holds exactly the items of the Fuse hits
  whose score is defined and strictly below 0.2 (the same items with the same
  multiplicities), arranged as all Spigot items followed by all Modrinth items, each group
  in the order in which Fuse returned its hits; the scores play no part in the arrangement.
  In the fuzzy branch (two or more records, none equal to the query) a non-empty kept list
  is the list \<open>fuzzySearch\<close> returns.
\<close>

theorem kept_set_below_threshold_by_source:
  "sortedResults fuse q items 0.2 =
     filter (\<lambda>p. source p = Spigot)
       (map item (filter (below_threshold 0.2) (fuse q items)))
     @ filter (\<lambda>p. source p = Modrinth)
       (map item (filter (below_threshold 0.2) (fuse q items)))
   \<and> mset (sortedResults fuse q items 0.2)
       = mset (map item (filter (below_threshold 0.2) (fuse q items)))
   \<and> (2 \<le> length items
        \<and> \<not> (\<exists>r\<in>set items. \<exists>n. displayName r = Some n \<and> toLowerCase n = toLowerCase q)
        \<and> sortedResults fuse q items 0.2 \<noteq> []
      \<longrightarrow> results (fuzzySearch toLowerCase fuse q items \<lparr>threshold = Some 0.2, includeAllOnNoMatch = None\<rparr>)
            = sortedResults fuse q items 0.2)"
proof (intro conjI impI)
  show eq: "sortedResults fuse q items 0.2 =
     filter (\<lambda>p. source p = Spigot)
       (map item (filter (below_threshold 0.2) (fuse q items)))
     @ filter (\<lambda>p. source p = Modrinth)
       (map item (filter (below_threshold 0.2) (fuse q items)))"
    by (simp add: sortedResults_eq filteredResults_def)
  show "mset (sortedResults fuse q items 0.2)
       = mset (map item (filter (below_threshold 0.2) (fuse q items)))"
    unfolding eq by (rule mset_by_source)
next
  assume a: "2 \<le> length items
        \<and> \<not> (\<exists>r\<in>set items. \<exists>n. displayName r = Some n \<and> toLowerCase n = toLowerCase q)
        \<and> sortedResults fuse q items 0.2 \<noteq> []"
  then have "filter (is_exact toLowerCase (toLowerCase q)) items = []"
    by (intro no_exact_filter) simp
  from fuzzySearch_results [OF _ this, of fuse] a
  show "results (fuzzySearch toLowerCase fuse q items \<lparr>threshold = Some 0.2, includeAllOnNoMatch = None\<rparr>)
            = sortedResults fuse q items 0.2"
    by simp
qed

text \<open>
  Fuse returns the best hit first, here a Modrinth record; the hit at 0.25 is dropped, and
  the two Spigot records that are kept come before the better-scored Modrinth record.
\<close>

theorem kept_set_below_threshold_by_source_witness:
  "results (fuzzySearch ascii_lower
     (\<lambda>query items.
        [\<lparr>item = tag Modrinth (modrinth_resource ''EssentialsX'' ''a''), score = Some 0.01\<rparr>,
         \<lparr>item = tag Spigot (spigot_resource ''Essentials'' ''b''), score = Some 0.1\<rparr>,
         \<lparr>item = tag Spigot (spigot_resource ''EssentialsChat'' ''c''), score = Some 0.25\<rparr>,
         \<lparr>item = tag Spigot (spigot_resource ''EssentialsSpawn'' ''d''), score = Some 0.15\<rparr>])
     ''essential''
     [tag Spigot (spigot_resource ''Essentials'' ''b''),
      tag Spigot (spigot_resource ''EssentialsChat'' ''c''),
      tag Spigot (spigot_resource ''EssentialsSpawn'' ''d''),
      tag Modrinth (modrinth_resource ''EssentialsX'' ''a'')]
     \<lparr>threshold = Some 0.2, includeAllOnNoMatch = None\<rparr>)
   = [tag Spigot (spigot_resource ''Essentials'' ''b''),
      tag Spigot (spigot_resource ''EssentialsSpawn'' ''d''),
      tag Modrinth (modrinth_resource ''EssentialsX'' ''a'')]"
  using kept_set_below_threshold_by_source
    [where toLowerCase = ascii_lower and fuse = "\<lambda>query items.
        [\<lparr>item = tag Modrinth (modrinth_resource ''EssentialsX'' ''a''), score = Some 0.01\<rparr>,
         \<lparr>item = tag Spigot (spigot_resource ''Essentials'' ''b''), score = Some 0.1\<rparr>,
         \<lparr>item = tag Spigot (spigot_resource ''EssentialsChat'' ''c''), score = Some 0.25\<rparr>,
         \<lparr>item = tag Spigot (spigot_resource ''EssentialsSpawn'' ''d''), score = Some 0.15\<rparr>]"
     and q = "''essential''"
     and items = "[tag Spigot (spigot_resource ''Essentials'' ''b''),
      tag Spigot (spigot_resource ''EssentialsChat'' ''c''),
      tag Spigot (spigot_resource ''EssentialsSpawn'' ''d''),
      tag Modrinth (modrinth_resource ''EssentialsX'' ''a'')]"]
  by (simp add: example_simps below_threshold_def)

text \<open>
  Claim C4, as the code has it. In the fuzzy branch (two or more records, none equal to
  the query), with Fuse returning records of the list it was given: the outcome is
  \<open>SingleMatch r\<close> if and only if the kept list is exactly \<open>[r]\<close> and \<open>r\<close> either has no
  display name or exactly one record of the whole merged list has \<open>r\<close>'s lower-cased
  display name as its own lower-cased display name; and whenever the kept list is not
  empty and the outcome is not a single match, the outcome is the kept list as a candidate
  set with reason \<open>FuzzyMultipleGood\<close>. The name map the code builds over the whole merged
  list before any filtering holds exactly these counts. All of this holds for every
  lower-casing function \<open>toLowerCase\<close>.
\<close>

theorem fuzzy_branch_decision:
  assumes "2 \<le> length rs"
    and "\<not> (\<exists>r\<in>set rs. \<exists>n. displayName r = Some n \<and> toLowerCase n = toLowerCase q)"
    and "\<forall>x\<in>set (fuse q rs). item x \<in> set rs"
  shows "(processSearchResults toLowerCase fuse q rs = SingleMatch r \<longleftrightarrow>
            sortedResults fuse q rs 0.2 = [r] \<and>
            (displayName r = None \<or>
             (\<exists>n. displayName r = Some n \<and> name_frequency toLowerCase rs (toLowerCase n) = 1)))
       \<and> (sortedResults fuse q rs 0.2 \<noteq> [] \<and>
            (\<forall>r'. processSearchResults toLowerCase fuse q rs \<noteq> SingleMatch r') \<longrightarrow>
          processSearchResults toLowerCase fuse q rs =
            CandidateSet (sortedResults fuse q rs 0.2) FuzzyMultipleGood)
       \<and> (\<forall>k. build_nameMap toLowerCase rs k =
                (if name_frequency toLowerCase rs k = 0 then None
                 else Some (name_frequency toLowerCase rs k)))"
proof -
  define kept where "kept = sortedResults fuse q rs 0.2"
  have unfold: "processSearchResults toLowerCase fuse q rs =
     (case kept of
        [] \<Rightarrow> CandidateSet rs FuzzyMultipleGood
      | r # rest \<Rightarrow>
          if rest = [] \<and> \<not> hasDuplicates toLowerCase (build_nameMap toLowerCase rs) r then SingleMatch r
          else CandidateSet (r # rest) FuzzyMultipleGood)"
    unfolding kept_def by (rule processSearchResults_fuzzy [OF assms(1) no_exact_filter [OF assms(2)]])
  have dup: "\<not> hasDuplicates toLowerCase (build_nameMap toLowerCase rs) k \<longleftrightarrow>
       displayName k = None \<or>
       (\<exists>n. displayName k = Some n \<and> name_frequency toLowerCase rs (toLowerCase n) = 1)"
    if "kept = [k]" for k
  proof (cases "displayName k")
    case None
    then show ?thesis by (simp add: hasDuplicates_iff)
  next
    case (Some n)
    have "k \<in> set kept" using that by simp
    then have "k \<in> set rs"
      using set_sortedResults [of fuse q rs "0.2"] assms(3) unfolding kept_def by auto
    then have "filter (\<lambda>r. map_option toLowerCase (displayName r) = Some (toLowerCase n)) rs \<noteq> []"
      using Some by (auto simp: filter_empty_conv)
    then have "0 < name_frequency toLowerCase rs (toLowerCase n)"
      by (simp add: name_frequency_def)
    then show ?thesis
      using Some by (auto simp: hasDuplicates_iff build_nameMap_frequency)
  qed
  have main: "(processSearchResults toLowerCase fuse q rs = SingleMatch r \<longleftrightarrow>
            sortedResults fuse q rs 0.2 = [r] \<and>
            (displayName r = None \<or>
             (\<exists>n. displayName r = Some n \<and> name_frequency toLowerCase rs (toLowerCase n) = 1)))
       \<and> (sortedResults fuse q rs 0.2 \<noteq> [] \<and>
            (\<forall>r'. processSearchResults toLowerCase fuse q rs \<noteq> SingleMatch r') \<longrightarrow>
          processSearchResults toLowerCase fuse q rs =
            CandidateSet (sortedResults fuse q rs 0.2) FuzzyMultipleGood)"
  proof (cases kept)
    case Nil
    then show ?thesis unfolding unfold kept_def [symmetric] by simp
  next
    case (Cons k rest)
    show ?thesis
    proof (cases "rest = []")
      case True
      then have k: "kept = [k]" using Cons by simp
      show ?thesis
        unfolding unfold kept_def [symmetric] using dup [OF k] k by auto
    next
      case False
      then show ?thesis
        unfolding unfold kept_def [symmetric] using Cons by auto
    qed
  qed
  have "\<forall>k. build_nameMap toLowerCase rs k =
                (if name_frequency toLowerCase rs k = 0 then None
                 else Some (name_frequency toLowerCase rs k))"
    by (simp add: build_nameMap_frequency)
  with main show ?thesis by blast
qed

text \<open>The spec's third scenario: one hit below the threshold, its name unique in the list.\<close>

theorem fuzzy_branch_decision_witness:
  "processSearchResults ascii_lower
     (\<lambda>query items. [\<lparr>item = tag Spigot (spigot_resource ''EssentialsX'' ''9''), score = Some 0.05\<rparr>])
     ''essential''
     [tag Spigot (spigot_resource ''EssentialsX'' ''9''),
      tag Modrinth (modrinth_resource ''WorldGuard'' ''w'')]
   = SingleMatch (tag Spigot (spigot_resource ''EssentialsX'' ''9''))
   \<and> name_frequency ascii_lower
     [tag Spigot (spigot_resource ''EssentialsX'' ''9''),
      tag Modrinth (modrinth_resource ''WorldGuard'' ''w'')] ''essentialsx'' = 1"
  using fuzzy_branch_decision
    [where toLowerCase = ascii_lower and q = "''essential''"
       and rs = "[tag Spigot (spigot_resource ''EssentialsX'' ''9''),
                  tag Modrinth (modrinth_resource ''WorldGuard'' ''w'')]"
       and fuse = "\<lambda>query items.
          [\<lparr>item = tag Spigot (spigot_resource ''EssentialsX'' ''9''), score = Some 0.05\<rparr>]"
       and r = "tag Spigot (spigot_resource ''EssentialsX'' ''9'')"]
  by (simp add: eval_simps name_frequency_def)

text \<open>
  The claim as stated asks for a count of one in the name map. A record without a title,
  found through its author, is kept alone and shown as the single match although no
  record of the list counts for it and the name map has no entry for it: \<open>hasDuplicates\<close>
  is false for a record without a name.
\<close>

theorem nameless_single_match:
  "processSearchResults ascii_lower
     (\<lambda>query items. [\<lparr>item = tag Modrinth (untitled_resource ''bob'' ''m''), score = Some 0.001\<rparr>])
     ''bob''
     [tag Modrinth (untitled_resource ''bob'' ''m''), tag Spigot (spigot_resource ''Foo'' ''1'')]
   = SingleMatch (tag Modrinth (untitled_resource ''bob'' ''m''))
   \<and> \<not> (\<exists>n. displayName (tag Modrinth (untitled_resource ''bob'' ''m'')) = Some n
          \<and> name_frequency ascii_lower
               [tag Modrinth (untitled_resource ''bob'' ''m''),
                tag Spigot (spigot_resource ''Foo'' ''1'')] (ascii_lower n) = 1)
   \<and> \<not> (\<exists>n. displayName (tag Modrinth (untitled_resource ''bob'' ''m'')) = Some n
          \<and> build_nameMap ascii_lower
               [tag Modrinth (untitled_resource ''bob'' ''m''),
                tag Spigot (spigot_resource ''Foo'' ''1'')] (ascii_lower n) = Some 1)"
proof -
  have "2 \<le> length [tag Modrinth (untitled_resource ''bob'' ''m''),
                      tag Spigot (spigot_resource ''Foo'' ''1'')]"
    by simp
  moreover have "filter (is_exact ascii_lower (ascii_lower ''bob''))
      [tag Modrinth (untitled_resource ''bob'' ''m''), tag Spigot (spigot_resource ''Foo'' ''1'')] = []"
    by (simp add: is_exact_def example_simps)
  ultimately show ?thesis
    by (simp add: processSearchResults_fuzzy hasDuplicates_def eval_simps)
qed

text \<open>
  Claim C3, as the code behaves. For a merged list of two or more records, none equal to
  the query, and no Fuse hit below 0.2: the whole unfiltered list is shown, but with the
  reason \<open>FuzzyMultipleGood\<close> ("Multiple matches found"), not \<open>NoGoodMatch\<close>.
  \<open>fuzzySearch\<close> is called without \<open>includeAllOnNoMatch\<close>, which then counts as true, so
  its result list is the whole list and is never empty; the branch of \<open>processSearchResults\<close>
  that reports "No close matches found" cannot be reached (\<open>NoGoodMatch_never_shown\<close>).
\<close>

theorem no_good_match_shown_as_multiple:
  assumes "2 \<le> length rs"
    and "\<not> (\<exists>r\<in>set rs. \<exists>n. displayName r = Some n \<and> toLowerCase n = toLowerCase q)"
    and "\<forall>x\<in>set (fuse q rs). \<not> below_threshold 0.2 x"
  shows "processSearchResults toLowerCase fuse q rs = CandidateSet rs FuzzyMultipleGood"
proof -
  have "sortedResults fuse q rs 0.2 = []"
    using assms(3) by (rule sortedResults_Nil)
  then show ?thesis
    by (simp add: processSearchResults_fuzzy [OF assms(1) no_exact_filter [OF assms(2)]])
qed

text \<open>The spec's fourth scenario, with a single Fuse hit above the threshold.\<close>

theorem no_good_match_shown_as_multiple_witness:
  "processSearchResults ascii_lower
     (\<lambda>query items. [\<lparr>item = tag Spigot (spigot_resource ''Foo'' ''1''), score = Some 0.28\<rparr>])
     ''zzz-unmatched''
     [tag Spigot (spigot_resource ''Foo'' ''1''), tag Modrinth (modrinth_resource ''Bar'' ''b'')]
   = CandidateSet
       [tag Spigot (spigot_resource ''Foo'' ''1''), tag Modrinth (modrinth_resource ''Bar'' ''b'')]
       FuzzyMultipleGood"
  using no_good_match_shown_as_multiple
    [where toLowerCase = ascii_lower and q = "''zzz-unmatched''"
       and rs = "[tag Spigot (spigot_resource ''Foo'' ''1''),
                  tag Modrinth (modrinth_resource ''Bar'' ''b'')]"
       and fuse = "\<lambda>query items.
          [\<lparr>item = tag Spigot (spigot_resource ''Foo'' ''1''), score = Some 0.28\<rparr>]"]
  by (simp add: example_simps below_threshold_def)


section \<open>The cache\<close>

text \<open>
  Claim C6. For every key and fetch: a call that finds an entry for the key less than
  \<open>CACHE_TTL\<close> (5 minutes) old returns the entry's value and leaves the whole state as it
  was, whatever the fetch is, so the fetch is not run; a call that finds no entry, or one
  that is \<open>CACHE_TTL\<close> old or older, runs the fetch and, when it succeeds, stores its
  value under the key with the time of the call. Hence after a successful miss at time
  \<open>now\<close>, a second call at \<open>later\<close> returns the stored value without running its fetch
  when \<open>later - now < CACHE_TTL\<close>, and runs its fetch and overwrites the entry when
  \<open>later - now \<ge> CACHE_TTL\<close>. A call never removes an entry: under any other key the
  cache holds after the call what the fetch (if it ran) left there.
\<close>

theorem withCache_ttl:
  "(c key = Some e \<and> now - timestamp e < CACHE_TTL \<longrightarrow>
      withCache now key f (c, w) = (Inr (data e), (c, w)))
   \<and> ((c key = None \<or> (\<exists>e'. c key = Some e' \<and> CACHE_TTL \<le> now - timestamp e'))
        \<and> f (c, w) = (Inr v, (c', w')) \<longrightarrow>
      withCache now key f (c, w) = (Inr v, (c'(key \<mapsto> \<lparr>timestamp = now, data = v\<rparr>), w')))
   \<and> (\<not> cache_valid now key c \<and> f (c, w) = (Inr v, (c', w')) \<and> later - now < CACHE_TTL \<longrightarrow>
      withCache later key g (snd (withCache now key f (c, w)))
        = (Inr v, (c'(key \<mapsto> \<lparr>timestamp = now, data = v\<rparr>), w')))
   \<and> (\<not> cache_valid now key c \<and> f (c, w) = (Inr v, (c', w')) \<and> CACHE_TTL \<le> later - now
        \<and> g (c'(key \<mapsto> \<lparr>timestamp = now, data = v\<rparr>), w') = (Inr u, (d, x)) \<longrightarrow>
      withCache later key g (snd (withCache now key f (c, w)))
        = (Inr u, (d(key \<mapsto> \<lparr>timestamp = later, data = u\<rparr>), x)))
   \<and> (k \<noteq> key \<longrightarrow>
      fst (snd (withCache now key f (c, w))) k
        = (if cache_valid now key c then c k else fst (snd (f (c, w))) k))"
proof (intro conjI impI)
  show "withCache now key f (c, w) = (Inr (data e), (c, w))"
    if "c key = Some e \<and> now - timestamp e < CACHE_TTL"
    using that by (simp add: withCache_hit)
  show "withCache now key f (c, w) = (Inr v, (c'(key \<mapsto> \<lparr>timestamp = now, data = v\<rparr>), w'))"
    if "(c key = None \<or> (\<exists>e'. c key = Some e' \<and> CACHE_TTL \<le> now - timestamp e'))
        \<and> f (c, w) = (Inr v, (c', w'))"
  proof -
    have "\<not> cache_valid now key (fst (c, w))"
      using that by (auto simp: cache_valid_iff)
    then show ?thesis
      using that by (simp add: withCache_miss fetch_and_store_def)
  qed
  have first: "withCache now key f (c, w) = (Inr v, (c'(key \<mapsto> \<lparr>timestamp = now, data = v\<rparr>), w'))"
    if "\<not> cache_valid now key c" and "f (c, w) = (Inr v, (c', w'))"
    using that by (simp add: withCache_miss fetch_and_store_def)
  show "withCache later key g (snd (withCache now key f (c, w)))
        = (Inr v, (c'(key \<mapsto> \<lparr>timestamp = now, data = v\<rparr>), w'))"
    if "\<not> cache_valid now key c \<and> f (c, w) = (Inr v, (c', w')) \<and> later - now < CACHE_TTL"
    using that first by (simp add: withCache_hit)
  show "withCache later key g (snd (withCache now key f (c, w)))
        = (Inr u, (d(key \<mapsto> \<lparr>timestamp = later, data = u\<rparr>), x))"
    if "\<not> cache_valid now key c \<and> f (c, w) = (Inr v, (c', w')) \<and> CACHE_TTL \<le> later - now
        \<and> g (c'(key \<mapsto> \<lparr>timestamp = now, data = v\<rparr>), w') = (Inr u, (d, x))"
    using that first by (simp add: withCache_miss cache_valid_iff fetch_and_store_def)
  show "fst (snd (withCache now key f (c, w))) k
        = (if cache_valid now key c then c k else fst (snd (f (c, w))) k)"
    if "k \<noteq> key"
  proof (cases "cache_valid now key c")
    case True
    then show ?thesis using withCache_valid [of now key "(c, w)" f] by simp
  next
    case False
    then show ?thesis
      using that withCache_miss [of now key "(c, w)" f]
      by (auto simp: fetch_and_store_def split: prod.splits sum.splits)
  qed
qed

text \<open>A second call 299999 ms after the first is served from the cache; at 300000 ms it fetches.\<close>

theorem withCache_ttl_witness:
  "withCache 300999 ''search:vault:5'' (\<lambda>st. (Inr ''other'', (fst st, Suc (snd st))))
     (snd (withCache 1000 ''search:vault:5'' (\<lambda>st. (Inr ''hits'', (fst st, Suc (snd st))))
        (Map.empty, 0 :: nat)))
   = (Inr ''hits'', (Map.empty(''search:vault:5'' \<mapsto> \<lparr>timestamp = 1000, data = ''hits''\<rparr>), Suc 0))
   \<and> withCache 301000 ''search:vault:5'' (\<lambda>st. (Inr ''other'', (fst st, Suc (snd st))))
     (snd (withCache 1000 ''search:vault:5'' (\<lambda>st. (Inr ''hits'', (fst st, Suc (snd st))))
        (Map.empty, 0 :: nat)))
   = (Inr ''other'',
      (Map.empty(''search:vault:5'' \<mapsto> \<lparr>timestamp = 301000, data = ''other''\<rparr>), Suc (Suc 0)))"
proof
  show "withCache 300999 ''search:vault:5'' (\<lambda>st. (Inr ''other'', (fst st, Suc (snd st))))
     (snd (withCache 1000 ''search:vault:5'' (\<lambda>st. (Inr ''hits'', (fst st, Suc (snd st))))
        (Map.empty, 0 :: nat)))
   = (Inr ''hits'', (Map.empty(''search:vault:5'' \<mapsto> \<lparr>timestamp = 1000, data = ''hits''\<rparr>), Suc 0))"
    by (rule withCache_ttl
        [where c = Map.empty and w = "0::nat" and c' = Map.empty and w' = "Suc 0",
          THEN conjunct2, THEN conjunct2, THEN conjunct1, rule_format])
      (simp add: cache_valid_def CACHE_TTL_def)
  show "withCache 301000 ''search:vault:5'' (\<lambda>st. (Inr ''other'', (fst st, Suc (snd st))))
     (snd (withCache 1000 ''search:vault:5'' (\<lambda>st. (Inr ''hits'', (fst st, Suc (snd st))))
        (Map.empty, 0 :: nat)))
   = (Inr ''other'',
      (Map.empty(''search:vault:5'' \<mapsto> \<lparr>timestamp = 301000, data = ''other''\<rparr>), Suc (Suc 0)))"
    using withCache_ttl
        [where c = Map.empty and w = "0::nat" and c' = Map.empty and w' = "Suc 0"
           and key = "''search:vault:5''" and now = 1000 and later = 301000 and v = "''hits''"
           and f = "\<lambda>st. (Inr ''hits'', (fst st, Suc (snd st)))"
           and g = "\<lambda>st. (Inr ''other'', (fst st, Suc (snd st)))"
           and u = "''other''" and x = "Suc (Suc 0)"
           and d = "Map.empty(''search:vault:5'' \<mapsto> \<lparr>timestamp = 1000, data = ''hits''\<rparr>)",
          THEN conjunct2, THEN conjunct2, THEN conjunct2, THEN conjunct1]
    by (simp add: cache_valid_def CACHE_TTL_def)
qed

text \<open>
  Claim C7. A call of \<open>withCache\<close> fails with an error exactly when it finds no valid
  entry and the fetch fails with that error, and the state after the call is then the
  state the fetch left: nothing is written. In particular, when the failing fetch has not
  touched the cache, the cache after the call is the cache before it.
\<close>

theorem withCache_failure:
  "(withCache now key f st = (Inl err, st') \<longleftrightarrow>
      \<not> cache_valid now key (fst st) \<and> f st = (Inl err, st'))
   \<and> (\<not> cache_valid now key (fst st) \<and> f st = (Inl err, st') \<and> fst st' = fst st \<longrightarrow>
      fst (snd (withCache now key f st)) = fst st)"
proof -
  have iff: "withCache now key f st = (Inl err, st') \<longleftrightarrow>
      \<not> cache_valid now key (fst st) \<and> f st = (Inl err, st')"
  proof (cases "cache_valid now key (fst st)")
    case True
    then show ?thesis using withCache_valid [OF True, of f] by simp
  next
    case False
    then show ?thesis
      by (auto simp: withCache_miss fetch_and_store_def split: prod.splits sum.splits)
  qed
  then show ?thesis by auto
qed

text \<open>A failed refresh of an expired entry: the error comes back and the old entry stays.\<close>

theorem withCache_failure_witness:
  "withCache 301000 ''search:vault:5'' (\<lambda>st. (Inl (Thrown ''timeout''), (fst st, Suc (snd st))))
     (Map.empty(''search:vault:5'' \<mapsto> \<lparr>timestamp = 1000, data = ''hits''\<rparr>), 0 :: nat)
   = (Inl (Thrown ''timeout''),
      (Map.empty(''search:vault:5'' \<mapsto> \<lparr>timestamp = 1000, data = ''hits''\<rparr>), Suc 0))"
  using withCache_failure
    [where now = 301000 and key = "''search:vault:5''"
       and f = "\<lambda>st. (Inl (Thrown ''timeout''), (fst st, Suc (snd st)))"
       and st = "(Map.empty(''search:vault:5'' \<mapsto> \<lparr>timestamp = 1000, data = ''hits''\<rparr>), 0 :: nat)"
       and err = "Thrown ''timeout''"
       and st' = "(Map.empty(''search:vault:5'' \<mapsto> \<lparr>timestamp = 1000, data = ''hits''\<rparr>), Suc 0)"]
  by (simp add: cache_valid_def CACHE_TTL_def)

section \<open>A failing adapter\<close>

text \<open>
  Claim C8. Searching all sources: when one adapter call throws or returns null and the
  other returns the records \<open>xs\<close>, the merged list is exactly \<open>xs\<close>, each tagged with the
  source that answered, the failed source contributing nothing; and for every source
  selection and every behaviour of the two adapter calls the flow ends with an outcome,
  not with an error.
\<close>

theorem one_adapter_failing:
  "(call_failed bad \<longrightarrow>
      getPluginByName toLowerCase fuse q ''all'' (Inr (Some xs)) bad
        = Inr (map (tag Spigot) xs, processSearchResults toLowerCase fuse q (map (tag Spigot) xs)))
   \<and> (call_failed bad \<longrightarrow>
      getPluginByName toLowerCase fuse q ''all'' bad (Inr (Some ys))
        = Inr (map (tag Modrinth) ys, processSearchResults toLowerCase fuse q (map (tag Modrinth) ys)))
   \<and> (\<exists>merged shown. getPluginByName toLowerCase fuse q src spigotCall modrinthCall = Inr (merged, shown))"
proof (intro conjI impI)
  assume "call_failed bad"
  then have "search_task bad [] = Inr []" by (rule search_task_failed)
  moreover have "search_task (Inr (Some xs)) [] = Inr xs" by (simp add: search_task_def)
  ultimately show "getPluginByName toLowerCase fuse q ''all'' (Inr (Some xs)) bad
        = Inr (map (tag Spigot) xs, processSearchResults toLowerCase fuse q (map (tag Spigot) xs))"
    by (simp add: getPluginByName_def combine_results_def Let_def)
next
  assume "call_failed bad"
  then have "search_task bad [] = Inr []" by (rule search_task_failed)
  moreover have "search_task (Inr (Some ys)) [] = Inr ys" by (simp add: search_task_def)
  ultimately show "getPluginByName toLowerCase fuse q ''all'' bad (Inr (Some ys))
        = Inr (map (tag Modrinth) ys, processSearchResults toLowerCase fuse q (map (tag Modrinth) ys))"
    by (simp add: getPluginByName_def combine_results_def Let_def)
next
  obtain a where a: "search_task spigotCall [] = Inr a" using search_task_Inr by blast
  obtain b where b: "search_task modrinthCall [] = Inr b" using search_task_Inr by blast
  show "\<exists>merged shown. getPluginByName toLowerCase fuse q src spigotCall modrinthCall = Inr (merged, shown)"
    by (simp add: getPluginByName_def a b Let_def)
qed

text \<open>The spec's fifth scenario: Modrinth throws, Spigot returns three records.\<close>

theorem one_adapter_failing_witness:
  "fst (projr (getPluginByName ascii_lower (\<lambda>query items. []) ''vault'' ''all''
     (Inr (Some [spigot_resource ''Vault'' ''1'', spigot_resource ''VaultChat'' ''2'',
                 spigot_resource ''Vaults'' ''3'']))
     (Inl (Thrown ''fetch failed''))))
   = [tag Spigot (spigot_resource ''Vault'' ''1''), tag Spigot (spigot_resource ''VaultChat'' ''2''),
      tag Spigot (spigot_resource ''Vaults'' ''3'')]"
  using one_adapter_failing
    [where toLowerCase = ascii_lower and bad = "Inl (Thrown ''fetch failed'')"
       and fuse = "\<lambda>query items. []" and q = "''vault''"
       and xs = "[spigot_resource ''Vault'' ''1'', spigot_resource ''VaultChat'' ''2'',
                 spigot_resource ''Vaults'' ''3'']"]
  by (simp add: call_failed_def)

section \<open>The Modrinth limit\<close>

text \<open>
  Claim C10, as the code has it. The limit sent to the catalog is \<open>max 1 (min 100 n)\<close> for
  every requested limit \<open>n\<close> other than zero, and 10 when no limit is given or when the
  requested limit is zero (zero is falsy, so \<^verbatim>\<open>limit ? limit : 10\<close> takes the default); it
  always lies between 1 and 100.
\<close>

theorem ModrinthAPI_limit:
  "ModrinthAPI_validLimit limit =
     (case limit of None \<Rightarrow> 10 | Some n \<Rightarrow> if n = 0 then 10 else max 1 (min 100 n))
   \<and> 1 \<le> ModrinthAPI_validLimit limit \<and> ModrinthAPI_validLimit limit \<le> 100"
  by (auto simp: ModrinthAPI_validLimit_def ModrinthAPI_maxResults_def ensureValidLimit_def
      split: option.splits)

text \<open>A negative limit, one above 100, one in range, zero, and none.\<close>

theorem ModrinthAPI_limit_witness:
  "ModrinthAPI_validLimit (Some (- 3)) = 1 \<and> ModrinthAPI_validLimit (Some 250) = 100
   \<and> ModrinthAPI_validLimit (Some 5) = 5 \<and> ModrinthAPI_validLimit (Some 0) = 10
   \<and> ModrinthAPI_validLimit None = 10"
  using ModrinthAPI_limit [of "Some (- 3)"] ModrinthAPI_limit [of "Some 250"]
    ModrinthAPI_limit [of "Some 5"] ModrinthAPI_limit [of "Some 0"] ModrinthAPI_limit [of None]
  by simp

text \<open>The claim as stated includes zero, for which the limit sent is 10 and not 1.\<close>

theorem ModrinthAPI_limit_zero:
  "ModrinthAPI_validLimit (Some 0) \<noteq> max 1 (min 100 0)"
  by (simp add: ModrinthAPI_validLimit_def ModrinthAPI_maxResults_def ensureValidLimit_def)

end
